theory Spec2Isabelle
  imports Main "HOL-Library.Sublist"
begin

section \<open>The Visum block-file codec of PSLibrary/helpers.py\<close>

text \<open>
  Bytes are \<^typ>\<open>char\<close> lists. A Python \<open>str\<close> is represented by its UTF-8
  encoding, so writing text through a UTF-8 codec appends the representation as it
  is, and searching for or replacing an ASCII character acts on the representation
  as it does on the code points.
\<close>

type_synonym bytes = "char list"

datatype error =
  FileNotFoundError | ValueError | AttributeError | KeyError | UnicodeDecodeError | CsvException |
  Refused

abbreviation NL :: char where "NL \<equiv> CHR 0x0A"

definition BOM_UTF8 :: bytes where
  "BOM_UTF8 = [CHR 0xEF, CHR 0xBB, CHR 0xBF]"

subsection \<open>Encoding Detector\<close>

text \<open>
  The file system is a map from paths to contents. A binary stream is the content
  and a cursor; \<open>read n\<close> returns at most \<open>n\<close> bytes from the cursor on.
\<close>

type_synonym filesystem = "string \<rightharpoonup> bytes"

record file_stream =
  content :: bytes
  offset :: nat

definition open_rb :: "filesystem \<Rightarrow> string \<Rightarrow> error + file_stream" where
  "open_rb fs file_name =
     (case fs file_name of
        None \<Rightarrow> Inl FileNotFoundError
      | Some bs \<Rightarrow> Inr \<lparr>content = bs, offset = 0\<rparr>)"

definition stream_read :: "nat \<Rightarrow> file_stream \<Rightarrow> bytes \<times> file_stream" where
  "stream_read n s =
     (let got = take n (drop (offset s) (content s))
      in (got, s\<lparr>offset := offset s + length got\<rparr>))"

text \<open>
  \<open>_get_encoding\<close>: \<open>file_stream.read(3) == codecs.BOM_UTF8\<close>, then
  \<open>"utf-8-sig" if is_utf8 else "ansi"\<close>. The open's error is not caught.
\<close>

definition get_encoding :: "filesystem \<Rightarrow> string \<Rightarrow> error + string" where
  "get_encoding fs file_name =
     (case open_rb fs file_name of
        Inl e \<Rightarrow> Inl e
      | Inr file_stream \<Rightarrow>
          (let is_utf8 = (fst (stream_read 3 file_stream) = BOM_UTF8)
           in Inr (if is_utf8 then ''utf-8-sig'' else ''ansi'')))"

subsection \<open>Text\<close>

text \<open>Python's \<open>pat in s\<close> on strings.\<close>

fun contains :: "string \<Rightarrow> string \<Rightarrow> bool" where
  "contains pat [] = (pat = [])"
| "contains pat (c # cs) = (prefix pat (c # cs) \<or> contains pat cs)"

text \<open>\<open>s.replace(old, new)\<close> for a one-character \<open>old\<close>.\<close>

definition str_replace :: "char \<Rightarrow> string \<Rightarrow> string \<Rightarrow> string" where
  "str_replace old new s = concat (map (\<lambda>c. if c = old then new else [c]) s)"

text \<open>
  \<open>str.upper\<close> on ASCII letters; every other byte of the representation is kept.
  This is Python's \<open>upper\<close> for ASCII text only.
\<close>

definition upper_char :: "char \<Rightarrow> char" where
  "upper_char c =
     (case map_of (zip ''abcdefghijklmnopqrstuvwxyz'' ''ABCDEFGHIJKLMNOPQRSTUVWXYZ'') c of
        None \<Rightarrow> c
      | Some u \<Rightarrow> u)"

definition upper :: "string \<Rightarrow> string" where
  "upper s = map upper_char s"

text \<open>\<open>sep.join(xs)\<close>.\<close>

fun join :: "string \<Rightarrow> string list \<Rightarrow> string" where
  "join sep [] = []"
| "join sep [x] = x"
| "join sep (x # y # ys) = x @ sep @ join sep (y # ys)"

text \<open>
  \<open>s.split(sep)\<close>: the pieces between the occurrences of \<open>sep\<close>, found from the left
  without overlap. Python raises for an empty separator; the separator built by the
  reader is never empty, and the model returns the string whole there.
\<close>

function py_split :: "string \<Rightarrow> string \<Rightarrow> string \<Rightarrow> string list" where
  "py_split sep acc [] = [rev acc]"
| "py_split sep acc (c # cs) =
     (if sep \<noteq> [] \<and> prefix sep (c # cs)
      then rev acc # py_split sep [] (drop (length sep) (c # cs))
      else py_split sep (c # acc) cs)"
  by pat_completeness auto
termination
  by (relation "measure (\<lambda>(sep, acc, s). length s)") (auto simp: neq_Nil_conv)

definition split :: "string \<Rightarrow> string \<Rightarrow> string list" where
  "split s sep = py_split sep [] s"

text \<open>Decimal numerals, for \<open>str\<close> of an integer and for \<open>strftime\<close>.\<close>

definition digit :: "nat \<Rightarrow> char" where
  "digit n = ''0123456789'' ! (n mod 10)"

function show_nat :: "nat \<Rightarrow> string" where
  "show_nat n = (if n < 10 then [digit n] else show_nat (n div 10) @ [digit n])"
  by pat_completeness auto
termination
  by (relation "measure id") auto

declare show_nat.simps [simp del]

definition show_int :: "int \<Rightarrow> string" where
  "show_int i = (if i < 0 then CHR ''-'' # show_nat (nat (- i)) else show_nat (nat i))"

subsection \<open>Tables\<close>

text \<open>
  A cell of a DataFrame: a Python \<open>str\<close>, an integer, a missing value (\<open>NaN\<close>), or
  any other object, of which only its \<open>str()\<close> form matters here and which has no
  string \<open>replace\<close>. A DataFrame is its column labels, its row labels (the index) and
  its rows; the i-th label of the index belongs to the i-th row. Column labels are
  strings and may repeat. Row labels are integers and may repeat or lack 0: the default
  index is 0, 1, ..., and filtering, sorting or concatenating frames leaves other
  indexes. A row shorter than the header is padded with missing values, as the
  DataFrame constructor does.
\<close>

datatype cell = Str string | Num int | Missing | Obj string

record table =
  columns :: "string list"
  index :: "int list"
  rows :: "cell list list"

text \<open>\<open>pd.DataFrame([])\<close>.\<close>

definition empty_df :: table where
  "empty_df = \<lparr>columns = [], index = [], rows = []\<rparr>"

text \<open>The default index of a frame with n rows.\<close>

definition range_index :: "nat \<Rightarrow> int list" where
  "range_index n = map int [0..<n]"

fun is_str :: "cell \<Rightarrow> bool" where
  "is_str (Str s) = True"
| "is_str c = False"

text \<open>\<open>str(x)\<close> of a cell, which is what \<open>astype(str)\<close> applies to each one.\<close>

fun py_str :: "cell \<Rightarrow> string" where
  "py_str (Str s) = s"
| "py_str (Num i) = show_int i"
| "py_str Missing = ''nan''"
| "py_str (Obj s) = s"

definition cell_at :: "cell list \<Rightarrow> nat \<Rightarrow> cell" where
  "cell_at r j = (if j < length r then r ! j else Missing)"

text \<open>\<open>dataframe[column]\<close> for the j-th label, and the assignment of a whole column.\<close>

definition column_cells :: "nat \<Rightarrow> cell list list \<Rightarrow> cell list" where
  "column_cells j rs = map (\<lambda>r. cell_at r j) rs"

definition set_column :: "nat \<Rightarrow> cell list \<Rightarrow> cell list list \<Rightarrow> cell list list" where
  "set_column j cs rs = map (\<lambda>(r, c). r[j := c]) (zip rs cs)"

subsection \<open>Sanitizer\<close>

definition fallback :: string where
  "fallback = [CHR 0xE0, CHR 0xB8, CHR 0xA2, CHR 0xE0, CHR 0xB8, CHR 0x87]"

text \<open>\<open>dataframe[column].astype(str).str.contains(pat, na=False, regex=False)\<close>.\<close>

definition contains_mask :: "string \<Rightarrow> cell list \<Rightarrow> bool list" where
  "contains_mask pat col = map (\<lambda>c. contains pat (py_str c)) col"

text \<open>
  \<open>dataframe.loc[mask, column] = dataframe.loc[mask, column].apply(lambda x:
  x.replace(old, new))\<close>: the lambda runs on the selected cells first and raises on one
  that is not a string, in which case nothing is assigned.
\<close>

fun replace_cell :: "char \<Rightarrow> string \<Rightarrow> cell \<Rightarrow> error + cell" where
  "replace_cell old new (Str s) = Inr (Str (str_replace old new s))"
| "replace_cell old new c = Inl AttributeError"

fun apply_replace :: "char \<Rightarrow> string \<Rightarrow> bool list \<Rightarrow> cell list \<Rightarrow> error + cell list" where
  "apply_replace old new (m # ms) (c # cs) =
     (if m then
        (case replace_cell old new c of
           Inl e \<Rightarrow> Inl e
         | Inr c' \<Rightarrow> (case apply_replace old new ms cs of
                        Inl e \<Rightarrow> Inl e
                      | Inr cs' \<Rightarrow> Inr (c' # cs')))
      else
        (case apply_replace old new ms cs of
           Inl e \<Rightarrow> Inl e
         | Inr cs' \<Rightarrow> Inr (c # cs')))"
| "apply_replace old new ms cs = Inr cs"

text \<open>
  \<open>dataframe[column][0]\<close> on a column with a label of its own is a lookup of the row
  label 0 in a Series: \<open>label_cells\<close> gives the cells of the rows with a label. No
  such row is a \<open>KeyError\<close>, one row gives its cell, several rows give a Series, which
  is not a \<open>str\<close>.
\<close>

definition label_cells :: "int list \<Rightarrow> cell list \<Rightarrow> int \<Rightarrow> cell list" where
  "label_cells idx col l = map snd (filter (\<lambda>(k, c). k = l) (zip idx col))"

text \<open>
  The body of the loop over the columns of \<open>_replace_invalid_visum_chars\<close>, on the
  cells of one column: the column after the body, and the exception that ended the body
  if one did. \<open>repeated\<close> says that the label of the column occurs more than once among
  the columns; then \<open>dataframe[column]\<close> is a DataFrame, and \<open>[0]\<close> on it asks for a
  column labelled 0, which is a \<open>KeyError\<close>. Both masks are taken before the first
  assignment, and an exception in an assignment leaves the column as it is at that
  moment.
\<close>

definition column_body :: "bool \<Rightarrow> int list \<Rightarrow> cell list \<Rightarrow> cell list \<times> error option" where
  "column_body repeated idx col =
     (if \<not> length col > 0 then (col, None)
      else if repeated then (col, Some KeyError)
      else
        (case label_cells idx col 0 of
           [] \<Rightarrow> (col, Some KeyError)
         | [first] \<Rightarrow>
             (if is_str first then
                (let mask1 = contains_mask ''$'' col;
                     mask2 = contains_mask '';'' col
                 in case apply_replace (CHR ''$'') fallback mask1 col of
                      Inl e \<Rightarrow> (col, Some e)
                    | Inr col1 \<Rightarrow>
                        (case apply_replace (CHR '';'') '','' mask2 col1 of
                           Inl e \<Rightarrow> (col1, Some e)
                         | Inr col2 \<Rightarrow> (col2, None)))
              else (col, None))
         | first # second # others \<Rightarrow> (col, None)))"

text \<open>\<open>try: ... except Exception: continue\<close>: the exception is dropped.\<close>

definition sanitize_column :: "bool \<Rightarrow> int list \<Rightarrow> cell list \<Rightarrow> cell list" where
  "sanitize_column repeated idx col = fst (column_body repeated idx col)"

definition repeated_label :: "string list \<Rightarrow> nat \<Rightarrow> bool" where
  "repeated_label cols j = (1 < count_list cols (cols ! j))"

definition sanitize_column_at ::
  "string list \<Rightarrow> int list \<Rightarrow> nat \<Rightarrow> cell list list \<Rightarrow> cell list list" where
  "sanitize_column_at cols idx j rs =
     set_column j (sanitize_column (repeated_label cols j) idx (column_cells j rs)) rs"

definition sanitize_table :: "table \<Rightarrow> table" where
  "sanitize_table df =
     df\<lparr>rows := fold (sanitize_column_at (columns df) (index df))
                    [0..<length (columns df)] (rows df)\<rparr>"

text \<open>
  What the Sanitizer is to do to a cell: in a string every \<open>$\<close> becomes the fallback
  text and every \<open>;\<close> a comma; any other cell stays. \<open>replaced\<close> is one of the two
  replacements alone, and a column is \<open>raising\<close> for a character when a cell that is
  not a string has it in its \<open>str()\<close> form, so that the lambda raises on it. A column
  is \<open>treated\<close> when the test of the loop body lets it through: it has a row, its label
  is not repeated, and exactly one row is labelled 0 and holds a string in it.
\<close>

definition sanitized_cell :: "cell \<Rightarrow> cell" where
  "sanitized_cell c =
     (case c of
        Str s \<Rightarrow> Str (str_replace (CHR '';'') '','' (str_replace (CHR ''$'') fallback s))
      | _ \<Rightarrow> c)"

definition replaced :: "char \<Rightarrow> string \<Rightarrow> cell \<Rightarrow> cell" where
  "replaced old new c = (case c of Str s \<Rightarrow> Str (str_replace old new s) | _ \<Rightarrow> c)"

definition raising :: "char \<Rightarrow> cell list \<Rightarrow> bool" where
  "raising old col = (\<exists>c \<in> set col. \<not> is_str c \<and> contains [old] (py_str c))"

definition treated :: "bool \<Rightarrow> int list \<Rightarrow> cell list \<Rightarrow> bool" where
  "treated repeated idx col =
     (col \<noteq> [] \<and> \<not> repeated \<and>
      (case label_cells idx col 0 of [first] \<Rightarrow> is_str first | _ \<Rightarrow> False))"

text \<open>
  DataFrames are objects: the store maps a reference to the table it holds, a list of
  DataFrames is a list of references, and the Sanitizer updates the store and returns
  the references it appended to \<open>results\<close>.
\<close>

type_synonym heap = "nat \<Rightarrow> table"

fun replace_invalid_visum_chars :: "heap \<Rightarrow> nat list \<Rightarrow> heap \<times> nat list" where
  "replace_invalid_visum_chars h [] = (h, [])"
| "replace_invalid_visum_chars h (dataframe # dataframes) =
     (let h1 = h(dataframe := sanitize_table (h dataframe));
          (h2, results) = replace_invalid_visum_chars h1 dataframes
      in (h2, dataframe # results))"

subsection \<open>File Writer\<close>

text \<open>
  The write mode is one of the two the docstring names: \<open>"w"\<close> to create the file and
  \<open>"a+"\<close> to append to it.
\<close>

datatype open_mode = Create | Append

fun mode_str :: "open_mode \<Rightarrow> string" where
  "mode_str Create = ''w''"
| "mode_str Append = ''a+''"

record datetime =
  day :: nat
  month :: nat
  year :: nat

definition pad :: "nat \<Rightarrow> string \<Rightarrow> string" where
  "pad w s = replicate (w - length s) (CHR ''0'') @ s"

text \<open>\<open>now.strftime('%d/%m/%Y')\<close>.\<close>

definition strftime_dmy :: "datetime \<Rightarrow> string" where
  "strftime_dmy now =
     pad 2 (show_nat (day now)) @ ''/'' @ pad 2 (show_nat (month now)) @ ''/'' @
     pad 4 (show_nat (year now))"

definition header_block :: "string \<Rightarrow> string \<Rightarrow> string" where
  "header_block datetime_string file_type =
     (''$VISION'' @ [NL] @ ''* '' @ datetime_string @ [NL] @
      ''$VERSION:VERSNR;FILETYPE;LANGUAGE;UNIT'' @ [NL]) @
     ([NL] @ ''10.000;'' @ file_type @ '';ENG;KM'' @ [NL, NL])"

text \<open>
  Modelled from the spec: \<open>DataFrame.to_csv\<close> is the CSV encoding service of pandas,
  not code of the repository. Section 4.6, with the options of the call (\<open>";"\<close>,
  \<open>index=False\<close>, \<open>header=False\<close>, \<open>lineterminator='\n'\<close>, \<open>quoting=csv.QUOTE_NONE\<close>):
  each row is emitted as a semicolon-joined line with no quoting and no header
  repetition, ended by a single newline. A missing value is written as the empty field,
  any other cell as its \<open>str()\<close> form. An error of the service is not modelled.
\<close>

fun csv_field :: "cell \<Rightarrow> string" where
  "csv_field Missing = []"
| "csv_field c = py_str c"

definition csv_row :: "nat \<Rightarrow> cell list \<Rightarrow> string" where
  "csv_row n r = join '';'' (map (\<lambda>j. csv_field (cell_at r j)) [0..<n]) @ [NL]"

definition to_csv :: "table \<Rightarrow> string" where
  "to_csv df = concat (map (csv_row (length (columns df))) (rows df))"

definition table_block :: "table \<Rightarrow> string \<Rightarrow> string" where
  "table_block df_out table_name =
     (let attr_names = upper (join '';'' (columns df_out))
      in (''*'' @ [NL] @ ''* Table: '' @ table_name @ [NL] @ ''*'' @ [NL] @
          ''$'' @ table_name @ '':'' @ attr_names @ [NL]) @ to_csv df_out)"

text \<open>
  The text a call passes to the file, in order: the header block when the mode is
  \<open>"w"\<close>, then one block for each pair of \<open>zip(dfs, block_names)\<close>.
\<close>

definition table_blocks :: "heap \<Rightarrow> nat list \<Rightarrow> string list \<Rightarrow> string" where
  "table_blocks h dfs block_names =
     concat (map (\<lambda>(df_out, table_name). table_block (h df_out) table_name)
                 (zip dfs block_names))"

definition export_text ::
  "heap \<Rightarrow> nat list \<Rightarrow> string list \<Rightarrow> string \<Rightarrow> open_mode \<Rightarrow> string \<Rightarrow> string" where
  "export_text h dfs block_names file_type mode datetime_string =
     (if mode_str mode = ''w'' then header_block datetime_string file_type else []) @
     table_blocks h dfs block_names"

text \<open>
  \<open>open(path_out, mode, encoding='utf-8-sig')\<close> and the writes: \<open>"w"\<close> starts from the
  empty file, \<open>"a+"\<close> from the existing content (or the empty file); the codec puts the
  byte-order mark before the first text written at position 0.
\<close>

definition write_file :: "open_mode \<Rightarrow> bytes option \<Rightarrow> string \<Rightarrow> bytes" where
  "write_file mode existing text =
     (let start = (case mode of
                     Create \<Rightarrow> []
                   | Append \<Rightarrow> (case existing of None \<Rightarrow> [] | Some bs \<Rightarrow> bs))
      in start @ (if start = [] \<and> text \<noteq> [] then BOM_UTF8 else []) @ text)"

text \<open>
  The tables to write with their names: a single DataFrame with a single name, or a
  list of DataFrames with a list of names (\<open>isinstance(dfs, list)\<close>).
\<close>

datatype export_arg = Single nat string | Multi "nat list" "string list"

fun arg_dfs :: "export_arg \<Rightarrow> nat list" where
  "arg_dfs (Single df name) = [df]"
| "arg_dfs (Multi dfs names) = dfs"

fun arg_names :: "export_arg \<Rightarrow> string list" where
  "arg_names (Single df name) = [name]"
| "arg_names (Multi dfs names) = names"

text \<open>
  \<open>export_visum_file\<close>: the store after the call and the content of the file at
  \<open>path_out\<close> after it. The Sanitizer runs first, so the store is the one given here
  also when a later step raises. The creation of the directory, a failure of the open
  or of a write, and the newline translation of the text stream are not modelled: a
  line ends with the line feed that the code writes.
\<close>

definition export_visum_file ::
  "heap \<Rightarrow> export_arg \<Rightarrow> bytes option \<Rightarrow> string \<Rightarrow> open_mode \<Rightarrow> datetime \<Rightarrow> heap \<times> bytes" where
  "export_visum_file h arg existing file_type mode now =
     (let datetime_string = strftime_dmy now;
          (h1, dfs) = replace_invalid_visum_chars h (arg_dfs arg)
      in (h1, write_file mode existing
                (export_text h1 dfs (arg_names arg) file_type mode datetime_string)))"

subsection \<open>Memory-mapped file\<close>

text \<open>
  The reader works on the bytes of the file through \<open>mmap\<close>: the map is the content
  and a cursor. \<open>find\<close> searches from the cursor and does not move it, \<open>seek\<close> sets it,
  \<open>readline\<close> and \<open>read\<close> return bytes from the cursor on and move it behind them.
  \<open>None\<close> is the \<open>-1\<close> of \<open>find\<close>.
\<close>

fun index_of :: "char \<Rightarrow> bytes \<Rightarrow> nat option" where
  "index_of c [] = None"
| "index_of c (x # xs) = (if x = c then Some 0 else map_option Suc (index_of c xs))"

definition mm_find :: "bytes \<Rightarrow> nat \<Rightarrow> char \<Rightarrow> nat option" where
  "mm_find bs cursor c = map_option (\<lambda>i. cursor + i) (index_of c (drop cursor bs))"

definition line_at :: "bytes \<Rightarrow> nat \<Rightarrow> bytes" where
  "line_at bs cursor =
     (let rest = drop cursor bs
      in case index_of NL rest of None \<Rightarrow> rest | Some i \<Rightarrow> take (Suc i) rest)"

definition mm_readline :: "bytes \<Rightarrow> nat \<Rightarrow> bytes \<times> nat" where
  "mm_readline bs cursor = (line_at bs cursor, cursor + length (line_at bs cursor))"

definition mm_read :: "bytes \<Rightarrow> nat \<Rightarrow> nat \<Rightarrow> bytes \<times> nat" where
  "mm_read bs cursor count =
     (take count (drop cursor bs), cursor + length (take count (drop cursor bs)))"

subsection \<open>Block Locator\<close>

text \<open>
  \<open>str(line_with_dollar)\<close> of a \<open>bytes\<close> object is its \<open>repr\<close>: \<open>b'...'\<close>, in double
  quotes when the bytes hold a single quote and no double quote, with the quote and the
  backslash escaped, \<open>\t\<close>, \<open>\n\<close>, \<open>\r\<close> for those bytes and \<open>\xhh\<close> for every other
  byte outside the printable ASCII range.
\<close>

definition hex_digit :: "nat \<Rightarrow> char" where
  "hex_digit n = ''0123456789abcdef'' ! (n mod 16)"

definition escape_byte :: "char \<Rightarrow> char \<Rightarrow> string" where
  "escape_byte quote c =
     (if c = quote \<or> c = CHR 0x5C then [CHR 0x5C, c]
      else if c = CHR 0x09 then [CHR 0x5C, CHR ''t'']
      else if c = CHR 0x0A then [CHR 0x5C, CHR ''n'']
      else if c = CHR 0x0D then [CHR 0x5C, CHR ''r'']
      else if (of_char c :: nat) < 32 \<or> 127 \<le> (of_char c :: nat)
        then [CHR 0x5C, CHR ''x'', hex_digit (of_char c div 16), hex_digit (of_char c)]
      else [c])"

definition py_bytes_repr :: "bytes \<Rightarrow> string" where
  "py_bytes_repr bs =
     (let quote = (if CHR 0x27 \<in> set bs \<and> CHR 0x22 \<notin> set bs then CHR 0x22 else CHR 0x27)
      in CHR ''b'' # quote # concat (map (escape_byte quote) bs) @ [quote])"

text \<open>
  The search for the end of the block, from the cursor: each \<open>*\<close> found is tested on
  the line read from the \<open>*\<close> itself (\<open>seek(start_sign_index)\<close>, then \<open>readline()\<close>);
  a rejected one moves the cursor behind that line. The result is
  \<open>start_sign_index\<close>.
\<close>

function find_block_end :: "bytes \<Rightarrow> nat \<Rightarrow> nat option" where
  "find_block_end bs cursor =
     (case mm_find bs cursor (CHR ''*'') of
        None \<Rightarrow> None
      | Some start_sign_index \<Rightarrow>
          (let line_with_star = fst (mm_readline bs start_sign_index);
               index_star = index_of (CHR ''*'') line_with_star;
               index_semicolon = index_of (CHR '';'') line_with_star
           in if index_semicolon = None \<and> index_star \<in> {Some 0, Some 1}
              then Some start_sign_index
              else find_block_end bs (snd (mm_readline bs start_sign_index))))"
  by pat_completeness auto

lemma index_of_Some: "index_of c xs = Some i \<Longrightarrow> i < length xs \<and> xs ! i = c"
  by (induction xs arbitrary: i) (auto split: if_splits)

lemma mm_find_Some: "mm_find bs k c = Some s \<Longrightarrow> k \<le> s \<and> s < length bs"
  by (auto simp: mm_find_def dest!: index_of_Some)

lemma line_at_nonempty: "s < length bs \<Longrightarrow> line_at bs s \<noteq> []"
  by (auto simp: line_at_def Let_def split: option.splits)

lemma line_at_length: "s \<le> length bs \<Longrightarrow> s + length (line_at bs s) \<le> length bs"
  by (auto simp: line_at_def Let_def split: option.splits)

lemma mm_readline_advances: "s < length bs \<Longrightarrow> s < snd (mm_readline bs s)"
  using line_at_nonempty [of s bs] by (simp add: mm_readline_def)

lemma mm_readline_bound: "s \<le> length bs \<Longrightarrow> snd (mm_readline bs s) \<le> length bs"
  using line_at_length [of s bs] by (simp add: mm_readline_def)

termination find_block_end
proof (relation "measure (\<lambda>(bs, k). length bs - k)", goal_cases)
  case 1
  show ?case by simp
next
  case (2 bs cursor s)
  have "cursor \<le> s" "s < length bs"
    using mm_find_Some [OF 2(1)] by simp_all
  moreover have "s < snd (mm_readline bs s)"
    using \<open>s < length bs\<close> by (rule mm_readline_advances)
  ultimately show ?case by simp
qed

declare find_block_end.simps [simp del]

subsection \<open>Block Decoder\<close>

text \<open>
  The CSV decoding service is \<open>pd.read_csv\<close> with the options that \<open>_read_csv_file\<close>
  and the reader pass (\<open>encoding='UTF-8'\<close>, \<open>skipinitialspace=True\<close>,
  \<open>on_bad_lines="warn"\<close>, \<open>sep=";"\<close> and the caller's keyword arguments). It is not code
  of the repository and is a parameter of the reader: a function from the bytes of a
  block to the error raised or to the answer, which is a DataFrame or, when the keyword
  arguments ask for chunks, a \<open>TextFileReader\<close>; of the latter the model keeps what
  \<open>pd.concat(chunk for chunk in _df)\<close> makes of it, an error or a table. What is proved
  of the reader below is proved for every such function.
\<close>

datatype csv_result = Frame table | TextFileReader "error + table"

type_synonym csv_reader = "bytes \<Rightarrow> error + csv_result"

text \<open>
  \<open>_read_csv_file\<close>: an exception of the service is raised again as an \<open>Exception\<close>
  with a message.
\<close>

definition read_csv_file :: "csv_reader \<Rightarrow> bytes \<Rightarrow> error + csv_result" where
  "read_csv_file read_csv data =
     (case read_csv data of
        Inl err \<Rightarrow> Inl CsvException
      | Inr file_reader \<Rightarrow> Inr file_reader)"

text \<open>
  The column names after decoding:
  \<open>map(lambda x: x.split(f"${table_name.upper()}:")[-1], df_block.columns)\<close>.
\<close>

definition strip_prefix :: "string \<Rightarrow> string \<Rightarrow> string" where
  "strip_prefix table_name x = last (split x (''$'' @ upper table_name @ '':''))"

text \<open>
  What the reader does with the bytes of a block it has found: the decoding, the
  concatenation of the chunks, which raises its own error, and the new column names.
\<close>

definition decode_block :: "csv_reader \<Rightarrow> string \<Rightarrow> bytes \<Rightarrow> error + table" where
  "decode_block read_csv name buffer =
     (case read_csv_file read_csv buffer of
        Inl e \<Rightarrow> Inl e
      | Inr raw_df \<Rightarrow>
          (case (case raw_df of TextFileReader chunks \<Rightarrow> chunks | Frame df \<Rightarrow> Inr df) of
             Inl e \<Rightarrow> Inl e
           | Inr df_block \<Rightarrow>
               Inr (df_block\<lparr>columns := map (strip_prefix name) (columns df_block)\<rparr>)))"

subsection \<open>File Reader\<close>

record scan_state =
  position :: nat
  found_block :: "bool list"
  data :: "table list"

text \<open>
  The \<open>for index, name in enumerate(block_names)\<close> loop on one line that starts at a
  \<open>$\<close>: it stops at the first name whose \<open>$name:\<close> is not in the line's text. For a name
  that is, the block runs from the \<open>$\<close> to the end found from the cursor; it is read
  (which leaves the cursor at its end), decoded and stored at the name's index
  (\<open>block_index\<close> here, \<open>index\<close> being the row labels of a table). An error of the
  decoding ends the call.
\<close>

fun match_names ::
  "csv_reader \<Rightarrow> bytes \<Rightarrow> nat \<Rightarrow> bytes \<Rightarrow> (nat \<times> string) list \<Rightarrow> scan_state \<Rightarrow>
   error + scan_state" where
  "match_names read_csv bs dollar_sign_index line_with_dollar [] st = Inr st"
| "match_names read_csv bs dollar_sign_index line_with_dollar ((block_index, name) # rest) st =
     (if \<not> contains (''$'' @ name @ '':'') (py_bytes_repr line_with_dollar) then Inr st
      else
        (let start_sign_index =
               (case find_block_end bs (position st) of None \<Rightarrow> length bs | Some i \<Rightarrow> i);
             count = start_sign_index - dollar_sign_index;
             buffer = fst (mm_read bs dollar_sign_index count)
         in case decode_block read_csv name buffer of
              Inl e \<Rightarrow> Inl e
            | Inr df_block \<Rightarrow>
                match_names read_csv bs dollar_sign_index line_with_dollar rest
                  \<lparr>position = snd (mm_read bs dollar_sign_index count),
                   found_block = (found_block st)[block_index := True],
                   data = (data st)[block_index := df_block]\<rparr>))"

lemma find_block_end_Some: "find_block_end bs k = Some s \<Longrightarrow> k \<le> s \<and> s < length bs"
proof (induction bs k rule: find_block_end.induct)
  case (1 bs cursor)
  from "1.prems" obtain t where t: "mm_find bs cursor (CHR ''*'') = Some t"
    by (subst (asm) find_block_end.simps) (auto split: option.splits)
  have b: "cursor \<le> t" "t < length bs"
    using mm_find_Some [OF t] by simp_all
  define ok where "ok \<longleftrightarrow> index_of (CHR '';'') (fst (mm_readline bs t)) = None \<and>
        index_of (CHR ''*'') (fst (mm_readline bs t)) \<in> {Some 0, Some 1}"
  have eq: "find_block_end bs cursor =
      (if ok then Some t else find_block_end bs (snd (mm_readline bs t)))"
    using t by (subst find_block_end.simps) (simp add: Let_def ok_def)
  show ?case
  proof (cases ok)
    case True
    with "1.prems" eq b show ?thesis by simp
  next
    case False
    with "1.prems" eq have r: "find_block_end bs (snd (mm_readline bs t)) = Some s"
      by simp
    from False have "\<not> (index_of (CHR '';'') (fst (mm_readline bs t)) = None \<and>
        index_of (CHR ''*'') (fst (mm_readline bs t)) \<in> {Some 0, Some 1})"
      by (simp add: ok_def)
    from "1.IH" [OF t refl refl refl this r] mm_readline_advances [OF b(2)] b
    show ?thesis by simp
  qed
qed

lemma block_end_bounds:
  "k \<le> length bs \<Longrightarrow>
   k \<le> (case find_block_end bs k of None \<Rightarrow> length bs | Some i \<Rightarrow> i) \<and>
   (case find_block_end bs k of None \<Rightarrow> length bs | Some i \<Rightarrow> i) \<le> length bs"
  using find_block_end_Some [of bs k] by (auto split: option.splits)

lemma match_names_position:
  "match_names read_csv bs d line names st = Inr st' \<Longrightarrow> d < position st \<Longrightarrow>
   position st \<le> length bs \<Longrightarrow> position st \<le> position st' \<and> position st' \<le> length bs"
proof (induction names arbitrary: st)
  case Nil
  then show ?case by simp
next
  case (Cons a names)
  obtain block_index name where a: "a = (block_index, name)" by (cases a)
  show ?case
  proof (cases "contains (''$'' @ name @ '':'') (py_bytes_repr line)")
    case False
    with Cons.prems a show ?thesis by simp
  next
    case True
    define e where "e = (case find_block_end bs (position st) of None \<Rightarrow> length bs | Some i \<Rightarrow> i)"
    have e: "position st \<le> e" "e \<le> length bs"
      using block_end_bounds [OF Cons.prems(3)] by (simp_all add: e_def)
    have p: "snd (mm_read bs d (e - d)) = e"
      using e Cons.prems(2) by (simp add: mm_read_def)
    from Cons.prems(1) True a obtain df where
      "match_names read_csv bs d line names
         \<lparr>position = e, found_block = (found_block st)[block_index := True],
          data = (data st)[block_index := df]\<rparr>
       = Inr st'"
      by (auto simp: Let_def e_def [symmetric] p split: sum.splits)
    from Cons.IH [OF this] e Cons.prems(2) show ?thesis by simp
  qed
qed

text \<open>
  The \<open>while False in found_block\<close> loop: the next \<open>$\<close> from the cursor, the line read
  from it, and the loop over the names on that line.
\<close>

function read_loop ::
  "csv_reader \<Rightarrow> bytes \<Rightarrow> string list \<Rightarrow> scan_state \<Rightarrow> error + scan_state" where
  "read_loop read_csv bs block_names st =
     (if False \<in> set (found_block st) then
        (case mm_find bs (position st) (CHR ''$'') of
           None \<Rightarrow> Inr st
         | Some dollar_sign_index \<Rightarrow>
             (case match_names read_csv bs dollar_sign_index
                     (fst (mm_readline bs dollar_sign_index))
                     (enumerate 0 block_names)
                     (st\<lparr>position := snd (mm_readline bs dollar_sign_index)\<rparr>) of
                Inl e \<Rightarrow> Inl e
              | Inr st' \<Rightarrow> read_loop read_csv bs block_names st'))
      else Inr st)"
  by pat_completeness auto
termination
proof (relation "measure (\<lambda>(read_csv, bs, names, st). length bs - position st)", goal_cases)
  case 1
  show ?case by simp
next
  case (2 read_csv bs block_names st d st')
  have d: "position st \<le> d" "d < length bs"
    using mm_find_Some [OF 2(2)] by simp_all
  have "snd (mm_readline bs d) \<le> position st'"
    using match_names_position [OF 2(3)] mm_readline_advances [OF d(2)]
      mm_readline_bound [of d bs] d
    by simp
  with mm_readline_advances [OF d(2)] d show ?case by simp
qed

declare read_loop.simps [simp del]

text \<open>
  One name or a list of names (\<open>isinstance(block_names, str)\<close>), and likewise one table
  or a list of tables as the result.
\<close>

datatype 'a one_or_many = One 'a | Many "'a list"

fun as_list :: "'a one_or_many \<Rightarrow> 'a list" where
  "as_list (One x) = [x]"
| "as_list (Many xs) = xs"

fun list_required :: "'a one_or_many \<Rightarrow> bool" where
  "list_required (One x) = False"
| "list_required (Many xs) = True"

text \<open>
  \<open>read_visum_file\<close>. Opening the file asks the Encoding Detector first; a missing file
  is the error of that open. \<open>mmap.mmap(file.fileno(), 0, ...)\<close> raises \<open>ValueError\<close> on
  an empty file. The map holds the raw bytes of the file, the byte-order mark
  included; the encoding that was detected is the one of the text stream and plays no
  part in the scan. The model is of the code where Python has the codec \<open>ansi\<close>;
  elsewhere the open of a file without the mark raises.
\<close>

definition read_visum_file ::
  "csv_reader \<Rightarrow> filesystem \<Rightarrow> string \<Rightarrow> string one_or_many \<Rightarrow> error + table one_or_many" where
  "read_visum_file read_csv fs path block_names =
     (let names = as_list block_names;
          number_of_blocks = length names
      in case get_encoding fs path of
           Inl e \<Rightarrow> Inl e
         | Inr encoding \<Rightarrow>
             (case fs path of
                None \<Rightarrow> Inl FileNotFoundError
              | Some bs \<Rightarrow>
                  if bs = [] then Inl ValueError
                  else
                    (case read_loop read_csv bs names
                            \<lparr>position = 0,
                             found_block = replicate number_of_blocks False,
                             data = replicate number_of_blocks empty_df\<rparr> of
                       Inl e \<Rightarrow> Inl e
                     | Inr st \<Rightarrow>
                         Inr (if list_required block_names then Many (data st)
                              else One (data st ! 0)))))"

subsection \<open>Names and labels of the round trip\<close>






text \<open>A store that holds the listed tables at the references 0, 1, ...\<close>

definition heap_of :: "table list \<Rightarrow> heap" where
  "heap_of ts r = (if r < length ts then ts ! r else empty_df)"

subsection \<open>A decoding service for the examples\<close>

text \<open>
  An instance of the decoding service, for the examples. It decodes the blocks in which
  nothing that the service of pandas infers comes into play: the first line gives the
  column names, distinct and made of printable ASCII characters other than the blank,
  \<open>;\<close> and the double quote; every other line has one field for each column; the blanks
  in front of a field are skipped (\<open>skipinitialspace=True\<close>); what is left of a field
  starts with a letter, is made of letters, digits, blanks and underscores, and is none
  of the words that are read as a missing value, a number or a truth value. The table
  has the default index and the fields as strings. A buffer in which a lead byte of
  UTF-8 is followed by no continuation byte cannot be decoded (\<open>encoding='UTF-8'\<close>) and
  raises \<open>UnicodeDecodeError\<close>. Every other buffer is refused with \<open>Refused\<close>, an error
  of the example alone that stands for no answer of pandas.
\<close>

fun not_utf8 :: "bytes \<Rightarrow> bool" where
  "not_utf8 [] = False"
| "not_utf8 [c] = (0xC0 \<le> (of_char c :: nat))"
| "not_utf8 (c # d # cs) =
     ((0xC0 \<le> (of_char c :: nat) \<and> (of_char d :: nat) < 0x80) \<or> not_utf8 (d # cs))"

fun split_on :: "char \<Rightarrow> string \<Rightarrow> string list" where
  "split_on c [] = [[]]"
| "split_on c (x # xs) =
     (if x = c then [] # split_on c xs
      else (case split_on c xs of [] \<Rightarrow> [[x]] | p # ps \<Rightarrow> (x # p) # ps))"

definition example_lines :: "bytes \<Rightarrow> string list" where
  "example_lines text = (let ls = split_on NL text in if last ls = [] then butlast ls else ls)"

definition example_fields :: "string \<Rightarrow> string list" where
  "example_fields line = map (dropWhile (\<lambda>c. c = CHR '' '')) (split_on (CHR '';'') line)"

definition letters :: string where
  "letters = ''abcdefghijklmnopqrstuvwxyzABCDEFGHIJKLMNOPQRSTUVWXYZ''"

definition text_value :: "string \<Rightarrow> bool" where
  "text_value s =
     (s \<noteq> [] \<and> hd s \<in> set letters \<and> set s \<subseteq> set (letters @ ''0123456789 _'') \<and>
      upper s \<notin> set [''NA'', ''NAN'', ''NULL'', ''NONE'', ''INF'', ''INFINITY'', ''TRUE'', ''FALSE''])"

definition header_value :: "string \<Rightarrow> bool" where
  "header_value s =
     (s \<noteq> [] \<and>
      (\<forall>c \<in> set s. 33 \<le> (of_char c :: nat) \<and> (of_char c :: nat) < 127 \<and>
                   c \<noteq> CHR '';'' \<and> c \<noteq> CHR 0x22))"

definition example_read_csv :: csv_reader where
  "example_read_csv buffer =
     (if not_utf8 buffer then Inl UnicodeDecodeError
      else
        (case example_lines buffer of
           [] \<Rightarrow> Inl Refused
         | header # body \<Rightarrow>
             (let names = example_fields header;
                  records = map example_fields body
              in if (\<forall>n \<in> set names. header_value n) \<and> distinct names \<and>
                    (\<forall>r \<in> set records. length r = length names \<and> (\<forall>f \<in> set r. text_value f))
                 then Inr (Frame \<lparr>columns = names, index = range_index (length records),
                                  rows = map (map Str) records\<rparr>)
                 else Inl Refused)))"

subsection \<open>Example files and tables\<close>

text \<open>Two blocks, \<open>A\<close> before \<open>B\<close>, with a comment line between them.\<close>

definition two_blocks :: bytes where
  "two_blocks = ''$A:X'' @ [NL] @ ''a'' @ [NL] @ ''*'' @ [NL] @ ''$B:Y'' @ [NL] @ ''b'' @ [NL]"

text \<open>One block with one column, whose first value has a \<open>*\<close> in the middle.\<close>

definition star_in_value :: bytes where
  "star_in_value = ''$A:X'' @ [NL] @ ''ab*cd'' @ [NL] @ ''z'' @ [NL]"

text \<open>One block whose header spells the table name in mixed case.\<close>

definition mixed_case_header :: bytes where
  "mixed_case_header = ''$Link:NO;NAME'' @ [NL] @ ''r1;x'' @ [NL]"

text \<open>One block whose header has a tab inside the table name.\<close>

definition tab_in_name :: bytes where
  "tab_in_name = ''$A'' @ [CHR 0x09] @ ''B:X'' @ [NL] @ ''v'' @ [NL]"


text \<open>A table of stops, and one whose second value starts with a blank.\<close>

definition stops :: table where
  "stops = \<lparr>columns = [''No'', ''Name''], index = [0, 1],
            rows = [[Str ''r1'', Str ''Main St''], [Str ''r2'', Str ''x'']]\<rparr>"






section \<open>Properties\<close>

subsection \<open>Sanitizer\<close>

lemma contains_single: "contains [c] s \<longleftrightarrow> c \<in> set s"
  by (induction s) auto

lemma set_str_replace:
  "set (str_replace old new s) = (set s - {old}) \<union> (if old \<in> set s then set new else {})"
  by (induction s) (auto simp: str_replace_def)

lemma str_replace_absent: "old \<notin> set s \<Longrightarrow> str_replace old new s = s"
  by (induction s) (auto simp: str_replace_def)

lemma apply_replace_ok:
  "\<forall>x \<in> set xs. P x \<longrightarrow> is_str (g x) \<Longrightarrow>
   apply_replace old new (map P xs) (map g xs) =
     Inr (map (\<lambda>x. if P x then replaced old new (g x) else g x) xs)"
proof (induction xs)
  case Nil
  then show ?case by simp
next
  case (Cons x xs)
  then show ?case
    by (cases "g x") (auto simp: replaced_def)
qed

lemma apply_replace_raises:
  "\<exists>x \<in> set xs. P x \<and> \<not> is_str (g x) \<Longrightarrow>
   apply_replace old new (map P xs) (map g xs) = Inl AttributeError"
proof (induction xs)
  case Nil
  then show ?case by simp
next
  case (Cons x xs)
  show ?case
  proof (cases "P x \<and> \<not> is_str (g x)")
    case True
    then show ?thesis by (cases "g x") auto
  next
    case False
    with Cons.prems have "\<exists>x \<in> set xs. P x \<and> \<not> is_str (g x)" by auto
    from Cons.IH [OF this] show ?thesis
      by (cases "g x") (auto split: sum.splits)
  qed
qed

text \<open>The first assignment of the loop body, and the second one after it.\<close>

lemma first_pass:
  "apply_replace old new (contains_mask [old] col) col =
     (if raising old col then Inl AttributeError else Inr (map (replaced old new) col))"
proof (cases "raising old col")
  case True
  then have "\<exists>x \<in> set col. contains [old] (py_str x) \<and> \<not> is_str (id x)"
    by (auto simp: raising_def)
  from apply_replace_raises [OF this] True show ?thesis
    by (simp add: contains_mask_def)
next
  case False
  then have h: "\<forall>x \<in> set col. contains [old] (py_str x) \<longrightarrow> is_str (id x)"
    by (auto simp: raising_def)
  have "map (\<lambda>x. if contains [old] (py_str x) then replaced old new (id x) else id x) col
      = map (replaced old new) col"
  proof (rule map_cong [OF refl])
    fix x assume "x \<in> set col"
    with h show "(if contains [old] (py_str x) then replaced old new (id x) else id x)
        = replaced old new x"
      by (cases x) (auto simp: replaced_def contains_single str_replace_absent)
  qed
  with apply_replace_ok [OF h, of old new] False show ?thesis
    by (simp add: contains_mask_def)
qed

lemma is_str_replaced [simp]: "is_str (replaced old new c) = is_str c"
  by (cases c) (simp_all add: replaced_def)

lemma second_pass:
  "apply_replace old new (contains_mask [old] col) (map (replaced old0 new0) col) =
     (if raising old col then Inl AttributeError
      else Inr (map (\<lambda>c. if contains [old] (py_str c) then replaced old new (replaced old0 new0 c)
                          else replaced old0 new0 c) col))"
proof (cases "raising old col")
  case True
  then have "\<exists>x \<in> set col. contains [old] (py_str x) \<and> \<not> is_str (replaced old0 new0 x)"
    by (auto simp: raising_def)
  from apply_replace_raises [OF this] True show ?thesis
    by (simp add: contains_mask_def)
next
  case False
  then have h: "\<forall>x \<in> set col. contains [old] (py_str x) \<longrightarrow> is_str (replaced old0 new0 x)"
    by (auto simp: raising_def)
  from apply_replace_ok [OF h, of old new] False show ?thesis
    by (simp add: contains_mask_def)
qed

lemma fallback_chars: "CHR ''$'' \<notin> set fallback" "CHR '';'' \<notin> set fallback"
  by (simp_all add: fallback_def)

lemma sanitized_cell_eq:
  "\<not> (\<not> is_str c \<and> contains '';'' (py_str c)) \<Longrightarrow>
   (if contains '';'' (py_str c)
    then replaced (CHR '';'') '','' (replaced (CHR ''$'') fallback c)
    else replaced (CHR ''$'') fallback c) = sanitized_cell c"
  by (cases c)
     (auto simp: replaced_def sanitized_cell_def contains_single set_str_replace
        fallback_chars str_replace_absent)

text \<open>The two assignments of the loop body together, on a column that passed the test.\<close>

lemma both_passes:
  "fst (case apply_replace (CHR ''$'') fallback (contains_mask ''$'' col) col of
          Inl e \<Rightarrow> (col, Some e)
        | Inr col1 \<Rightarrow>
            (case apply_replace (CHR '';'') '','' (contains_mask '';'' col) col1 of
               Inl e \<Rightarrow> (col1, Some e)
             | Inr col2 \<Rightarrow> (col2, None)))
   = (if raising (CHR ''$'') col then col
      else if raising (CHR '';'') col then map (replaced (CHR ''$'') fallback) col
      else map sanitized_cell col)"
proof -
  have m: "map (\<lambda>c. if contains '';'' (py_str c)
                     then replaced (CHR '';'') '','' (replaced (CHR ''$'') fallback c)
                     else replaced (CHR ''$'') fallback c) col = map sanitized_cell col"
    if "\<not> raising (CHR '';'') col"
  proof (rule map_cong [OF refl])
    fix c assume "c \<in> set col"
    with that have "\<not> (\<not> is_str c \<and> contains '';'' (py_str c))"
      by (auto simp: raising_def)
    then show "(if contains '';'' (py_str c)
        then replaced (CHR '';'') '','' (replaced (CHR ''$'') fallback c)
        else replaced (CHR ''$'') fallback c) = sanitized_cell c"
      by (rule sanitized_cell_eq)
  qed
  show ?thesis
    using m
    by (simp add: first_pass [of "CHR ''$''" fallback col]
        second_pass [of "CHR '';''" "'',''" col "CHR ''$''" fallback])
qed

lemma sanitize_column_cases:
  "sanitize_column repeated idx col =
     (if treated repeated idx col then
        (if raising (CHR ''$'') col then col
         else if raising (CHR '';'') col then map (replaced (CHR ''$'') fallback) col
         else map sanitized_cell col)
      else col)"
proof (cases "label_cells idx col 0")
  case Nil
  then show ?thesis
    by (simp add: sanitize_column_def column_body_def treated_def)
next
  case (Cons first rest)
  show ?thesis
  proof (cases rest)
    case Nil
    with Cons both_passes [of col] show ?thesis
      by (simp add: sanitize_column_def column_body_def treated_def Let_def)
  next
    case (Cons second others)
    with \<open>label_cells idx col 0 = first # rest\<close> show ?thesis
      by (simp add: sanitize_column_def column_body_def treated_def)
  qed
qed

lemma raising_map:
  "(\<And>c. is_str (f c) = is_str c) \<Longrightarrow> (\<And>c. \<not> is_str c \<Longrightarrow> f c = c) \<Longrightarrow>
   raising old (map f col) = raising old col"
  by (auto simp: raising_def)

lemma label_cells_map: "label_cells idx (map f col) l = map f (label_cells idx col l)"
proof (induction idx arbitrary: col)
  case Nil
  then show ?case by (simp add: label_cells_def)
next
  case (Cons k idx)
  then show ?case
    by (cases col) (simp_all add: label_cells_def)
qed

lemma treated_map:
  assumes "\<And>c. is_str (f c) = is_str c"
  shows "treated repeated idx (map f col) = treated repeated idx col"
proof (cases "label_cells idx col 0")
  case Nil
  then show ?thesis
    by (simp add: treated_def label_cells_map)
next
  case (Cons first rest)
  with assms show ?thesis
    by (cases rest) (simp_all add: treated_def label_cells_map)
qed

lemma replaced_keeps: "\<not> is_str c \<Longrightarrow> replaced old new c = c"
  by (cases c) (simp_all add: replaced_def)

lemma is_str_sanitized [simp]: "is_str (sanitized_cell c) = is_str c"
  by (cases c) (simp_all add: sanitized_cell_def)

lemma sanitized_keeps: "\<not> is_str c \<Longrightarrow> sanitized_cell c = c"
  by (cases c) (simp_all add: sanitized_cell_def)

lemma replaced_idem:
  "old \<notin> set new \<Longrightarrow> replaced old new (replaced old new c) = replaced old new c"
  by (cases c) (simp_all add: replaced_def set_str_replace str_replace_absent)

lemma sanitized_idem: "sanitized_cell (sanitized_cell c) = sanitized_cell c"
  by (cases c)
     (simp_all add: sanitized_cell_def set_str_replace str_replace_absent fallback_chars)


lemma length_sanitize_column [simp]: "length (sanitize_column repeated idx col) = length col"
  by (subst sanitize_column_cases) simp

lemma sanitize_column_keeps:
  "i < length col \<Longrightarrow> \<not> is_str (col ! i) \<Longrightarrow> sanitize_column repeated idx col ! i = col ! i"
  by (subst sanitize_column_cases) (simp add: replaced_keeps sanitized_keeps)

lemma sanitize_column_idem:
  "sanitize_column repeated idx (sanitize_column repeated idx col) = sanitize_column repeated idx col"
proof (cases "treated repeated idx col")
  case False
  then have "sanitize_column repeated idx col = col"
    by (subst sanitize_column_cases) simp
  then show ?thesis by simp
next
  case guard: True
  show ?thesis
  proof (cases "raising (CHR ''$'') col")
    case True
    with guard have "sanitize_column repeated idx col = col"
      by (subst sanitize_column_cases) simp
    then show ?thesis by simp
  next
    case d: False
    show ?thesis
    proof (cases "raising (CHR '';'') col")
      case True
      with guard d have r: "sanitize_column repeated idx col = map (replaced (CHR ''$'') fallback) col"
        by (subst sanitize_column_cases) simp
      have "sanitize_column repeated idx (map (replaced (CHR ''$'') fallback) col)
          = map (replaced (CHR ''$'') fallback) (map (replaced (CHR ''$'') fallback) col)"
        using guard d True
        by (subst sanitize_column_cases) (simp add: raising_map replaced_keeps treated_map)
      then show ?thesis
        by (simp add: r replaced_idem fallback_chars)
    next
      case False
      with guard d have r: "sanitize_column repeated idx col = map sanitized_cell col"
        by (subst sanitize_column_cases) simp
      have "sanitize_column repeated idx (map sanitized_cell col)
          = map sanitized_cell (map sanitized_cell col)"
        using guard d False
        by (subst sanitize_column_cases) (simp add: raising_map sanitized_keeps treated_map)
      then show ?thesis
        by (simp add: r sanitized_idem)
    qed
  qed
qed

text \<open>Columns of a frame are independent of each other.\<close>

lemma cell_at_update:
  "cell_at (r[j := c]) k = (if k = j \<and> j < length r then c else cell_at r k)"
  by (auto simp: cell_at_def)

lemma column_cells_set_column_other:
  "length cs = length rs \<Longrightarrow> k \<noteq> j \<Longrightarrow> column_cells k (set_column j cs rs) = column_cells k rs"
  by (rule nth_equalityI) (simp_all add: column_cells_def set_column_def cell_at_update)

lemma column_cells_set_column_same:
  "length cs = length rs \<Longrightarrow> \<forall>i < length rs. length (rs ! i) \<le> j \<longrightarrow> cs ! i = Missing \<Longrightarrow>
   column_cells j (set_column j cs rs) = cs"
  by (rule nth_equalityI) (auto simp: column_cells_def set_column_def cell_at_update cell_at_def)

lemma length_column_cells [simp]: "length (column_cells j rs) = length rs"
  by (simp add: column_cells_def)

lemma column_cells_sanitize_column_at:
  "column_cells k (sanitize_column_at cols idx j rs) =
     (if k = j then sanitize_column (repeated_label cols j) idx (column_cells j rs)
      else column_cells k rs)"
proof (cases "k = j")
  case False
  then show ?thesis
    by (simp add: sanitize_column_at_def column_cells_set_column_other)
next
  case True
  have "\<forall>i < length rs. length (rs ! i) \<le> j \<longrightarrow>
      sanitize_column (repeated_label cols j) idx (column_cells j rs) ! i = Missing"
  proof (intro allI impI)
    fix i assume i: "i < length rs" and "length (rs ! i) \<le> j"
    then have "column_cells j rs ! i = Missing"
      by (simp add: column_cells_def cell_at_def)
    with i sanitize_column_keeps [of i "column_cells j rs" "repeated_label cols j" idx]
    show "sanitize_column (repeated_label cols j) idx (column_cells j rs) ! i = Missing" by simp
  qed
  with True show ?thesis
    by (simp add: sanitize_column_at_def column_cells_set_column_same)
qed

lemma set_column_same: "set_column j (column_cells j rs) rs = rs"
  by (rule nth_equalityI) (simp_all add: set_column_def column_cells_def cell_at_def list_update_beyond)

lemma sanitize_column_at_fixed:
  "sanitize_column (repeated_label cols j) idx (column_cells j rs) = column_cells j rs \<Longrightarrow>
   sanitize_column_at cols idx j rs = rs"
  by (simp add: sanitize_column_at_def set_column_same)

lemma column_cells_fold:
  "distinct js \<Longrightarrow> column_cells k (fold (sanitize_column_at cols idx) js rs) =
     (if k \<in> set js then sanitize_column (repeated_label cols k) idx (column_cells k rs)
      else column_cells k rs)"
proof (induction js arbitrary: rs)
  case Nil
  then show ?case by simp
next
  case (Cons j js)
  then show ?case
    by (auto simp: column_cells_sanitize_column_at)
qed

lemma fold_fixed:
  "\<forall>j \<in> set js. sanitize_column (repeated_label cols j) idx (column_cells j rs) = column_cells j rs \<Longrightarrow>
   fold (sanitize_column_at cols idx) js rs = rs"
  by (induction js) (simp_all add: sanitize_column_at_fixed)

lemma columns_sanitize_table [simp]: "columns (sanitize_table df) = columns df"
  by (simp add: sanitize_table_def)

lemma index_sanitize_table [simp]: "index (sanitize_table df) = index df"
  by (simp add: sanitize_table_def)


lemma sanitize_table_idem: "sanitize_table (sanitize_table df) = sanitize_table df"
proof -
  let ?js = "[0..<length (columns df)]"
  let ?f = "sanitize_column_at (columns df) (index df)"
  let ?rs = "fold ?f ?js (rows df)"
  have "\<forall>j \<in> set ?js. sanitize_column (repeated_label (columns df) j) (index df)
      (column_cells j ?rs) = column_cells j ?rs"
    by (simp add: column_cells_fold sanitize_column_idem)
  then have "fold ?f ?js ?rs = ?rs"
    by (rule fold_fixed)
  then show ?thesis
    by (simp add: sanitize_table_def)
qed

lemma replace_invalid_visum_chars_eq:
  "replace_invalid_visum_chars h dfs =
     ((\<lambda>r. if r \<in> set dfs then sanitize_table (h r) else h r), dfs)"
proof (induction dfs arbitrary: h)
  case Nil
  then show ?case by simp
next
  case (Cons d dfs)
  define h1 where "h1 = h(d := sanitize_table (h d))"
  have eq: "(\<lambda>r. if r \<in> set dfs then sanitize_table (h1 r) else h1 r)
      = (\<lambda>r. if r \<in> set (d # dfs) then sanitize_table (h r) else h r)"
    by (rule ext) (simp add: h1_def sanitize_table_idem)
  have "replace_invalid_visum_chars h (d # dfs) =
      (case replace_invalid_visum_chars h1 dfs of (h2, results) \<Rightarrow> (h2, d # results))"
    by (simp add: h1_def)
  also have "\<dots> = ((\<lambda>r. if r \<in> set dfs then sanitize_table (h1 r) else h1 r), d # dfs)"
    by (simp add: Cons.IH [of h1])
  finally show ?case
    by (simp only: eq)
qed




text \<open>
  C7. Sanitizer idempotence: applying the Sanitizer to its own result, in the store it
  left, changes neither the store nor the list.
\<close>

theorem sanitizer_idempotent:
  "replace_invalid_visum_chars (fst (replace_invalid_visum_chars h dfs))
     (snd (replace_invalid_visum_chars h dfs)) = replace_invalid_visum_chars h dfs"
proof -
  have "(\<lambda>r. if r \<in> set dfs
             then sanitize_table (if r \<in> set dfs then sanitize_table (h r) else h r)
             else (if r \<in> set dfs then sanitize_table (h r) else h r))
      = (\<lambda>r. if r \<in> set dfs then sanitize_table (h r) else h r)"
    by (rule ext) (simp add: sanitize_table_idem)
  then show ?thesis
    by (simp add: replace_invalid_visum_chars_eq)
qed

subsection \<open>File Writer\<close>

lemma export_visum_file_eq:
  "export_visum_file h arg existing file_type mode now =
     ((\<lambda>r. if r \<in> set (arg_dfs arg) then sanitize_table (h r) else h r),
      write_file mode existing
        (export_text (\<lambda>r. if r \<in> set (arg_dfs arg) then sanitize_table (h r) else h r)
           (arg_dfs arg) (arg_names arg) file_type mode (strftime_dmy now)))"
  by (simp add: export_visum_file_def replace_invalid_visum_chars_eq)




lemma table_block_starts: "\<exists>rest. table_block df name = CHR ''*'' # rest"
  by (simp add: table_block_def)

lemma concat_map_starts:
  "(\<And>p. \<exists>rest. f p = c # rest) \<Longrightarrow>
   concat (map f ps) = [] \<or> (\<exists>rest. concat (map f ps) = c # rest)"
proof (cases ps)
  case Nil
  then show ?thesis by simp
next
  case (Cons p ps')
  assume "\<And>p. \<exists>rest. f p = c # rest"
  then obtain rest where "f p = c # rest" by blast
  with Cons show ?thesis by simp
qed

lemma table_blocks_starts:
  "table_blocks h dfs names = [] \<or> (\<exists>rest. table_blocks h dfs names = CHR ''*'' # rest)"
  unfolding table_blocks_def
proof (rule concat_map_starts)
  fix p :: "nat \<times> string"
  obtain df name where "p = (df, name)" by (cases p)
  with table_block_starts [of "h df" name]
  show "\<exists>rest. (case p of (df_out, table_name) \<Rightarrow> table_block (h df_out) table_name)
      = CHR ''*'' # rest"
    by simp
qed

text \<open>
  C8. Header block by write mode. In create mode the file is the byte-order mark, the
  header block (the \<open>$VISION\<close> line, the date comment, the \<open>$VERSION\<close> header line and
  the data line with the fixed version, the file type, the language and the unit) and
  then the table blocks, whatever the file held before. In append mode the text written
  is the table blocks alone and is added behind the existing content, whether or not
  the file exists; it does not start with \<open>$VISION\<close>.
\<close>

theorem header_block_by_mode:
  "export_text h dfs names file_type Create d = header_block d file_type @ table_blocks h dfs names \<and>
   export_text h dfs names file_type Append d = table_blocks h dfs names \<and>
   \<not> prefix ''$VISION'' (export_text h dfs names file_type Append d) \<and>
   header_block d file_type =
     ''$VISION'' @ [NL] @ ''* '' @ d @ [NL] @ ''$VERSION:VERSNR;FILETYPE;LANGUAGE;UNIT'' @ [NL] @
     [NL] @ ''10.000;'' @ file_type @ '';ENG;KM'' @ [NL, NL] \<and>
   snd (export_visum_file h arg existing file_type Create now) =
     BOM_UTF8 @ header_block (strftime_dmy now) file_type @
     table_blocks (fst (export_visum_file h arg existing file_type Create now))
       (arg_dfs arg) (arg_names arg) \<and>
   snd (export_visum_file h arg None file_type Append now) =
     (let blocks = table_blocks (fst (export_visum_file h arg None file_type Append now))
                     (arg_dfs arg) (arg_names arg)
      in (if blocks = [] then [] else BOM_UTF8) @ blocks) \<and>
   snd (export_visum_file h arg (Some old) file_type Append now) =
     (let blocks = table_blocks (fst (export_visum_file h arg (Some old) file_type Append now))
                     (arg_dfs arg) (arg_names arg)
      in old @ (if old = [] \<and> blocks \<noteq> [] then BOM_UTF8 else []) @ blocks)"
proof -
  have np: "\<not> prefix ''$VISION'' (table_blocks h dfs names)"
    using table_blocks_starts [of h dfs names] by auto
  have hd: "header_block d file_type \<noteq> []" for d file_type
    by (simp add: header_block_def)
  show ?thesis
    using np
    by (simp add: export_text_def export_visum_file_eq write_file_def hd Let_def)
       (simp add: header_block_def)
qed

subsection \<open>Block Locator and File Reader\<close>



subsection \<open>split\<close>






subsection \<open>repr\<close>









subsection \<open>The loops of the reader\<close>







text \<open>
  The call depends on the decoding service through its answers alone: a statement
  that holds whatever the service answers on one buffer holds for every service.
\<close>

lemma by_answer:
  assumes "\<And>f e. P (f(buffer := Inl e))"
    and "\<And>f t. P (f(buffer := Inr (Frame t)))"
    and "\<And>f e. P (f(buffer := Inr (TextFileReader (Inl e))))"
    and "\<And>f t. P (f(buffer := Inr (TextFileReader (Inr t))))"
  shows "P (read_csv :: csv_reader)"
proof -
  have "P (read_csv(buffer := read_csv buffer))"
  proof (cases "read_csv buffer")
    case (Inl e)
    with assms(1) [of read_csv e] show ?thesis by simp
  next
    case (Inr answer)
    show ?thesis
    proof (cases answer)
      case (Frame t)
      with Inr assms(2) [of read_csv t] show ?thesis by simp
    next
      case (TextFileReader chunks)
      with Inr assms(3,4) [of read_csv] show ?thesis
        by (cases chunks) simp_all
    qed
  qed
  then show ?thesis by simp
qed

lemma reads_block_b:
  "read_visum_file read_csv [''net.att'' \<mapsto> two_blocks] ''net.att'' (Many [''B'', ''A''])
     = (case decode_block read_csv ''B'' (''$B:Y'' @ [NL] @ ''b'' @ [NL]) of
          Inl e \<Rightarrow> Inl e
        | Inr table_for_b \<Rightarrow> Inr (Many [table_for_b, empty_df]))"
  by (rule by_answer [where read_csv = read_csv and buffer = "''$B:Y'' @ [NL] @ ''b'' @ [NL]"];
      code_simp)

lemma reads_block_a:
  "read_visum_file read_csv [''net.att'' \<mapsto> two_blocks] ''net.att'' (One ''A'')
     = (case decode_block read_csv ''A'' (''$A:X'' @ [NL] @ ''a'' @ [NL]) of
          Inl e \<Rightarrow> Inl e
        | Inr table_for_a \<Rightarrow> Inr (One table_for_a))"
  by (rule by_answer [where read_csv = read_csv and buffer = "''$A:X'' @ [NL] @ ''a'' @ [NL]"];
      code_simp)

lemma reads_block_a_only:
  "read_visum_file read_csv [''net.att'' \<mapsto> two_blocks] ''net.att'' (Many [''A'', ''B''])
     = (case decode_block read_csv ''A'' (''$A:X'' @ [NL] @ ''a'' @ [NL]) of
          Inl e \<Rightarrow> Inl e
        | Inr table_for_a \<Rightarrow> Inr (Many [table_for_a, empty_df]))"
  by (rule by_answer [where read_csv = read_csv and buffer = "''$A:X'' @ [NL] @ ''a'' @ [NL]"];
      code_simp)

text \<open>
  C2. Multi-block request ordering. The file holds block \<open>A\<close> before block \<open>B\<close>, and
  block \<open>A\<close> is read when it is asked for alone. Asked for \<open>["B", "A"]\<close>, the reader
  decodes the block of \<open>B\<close> alone and returns its table first and an empty table in the
  place of \<open>A\<close>: the loop over the names stops at the first name that is not on the
  line, so the line of \<open>A\<close> is given up at \<open>B\<close>, and the line of \<open>B\<close> comes after it.
  In file order, \<open>["A", "B"]\<close>, it is the table of \<open>B\<close> that stays empty: every line is
  first tested against the first name. This holds for every decoding service; the call
  raises what the decoding of the one block raises.
\<close>

theorem request_order_loses_block:
  "read_visum_file read_csv [''net.att'' \<mapsto> two_blocks] ''net.att'' (Many [''B'', ''A''])
     = (case decode_block read_csv ''B'' (''$B:Y'' @ [NL] @ ''b'' @ [NL]) of
          Inl e \<Rightarrow> Inl e
        | Inr table_for_b \<Rightarrow> Inr (Many [table_for_b, empty_df])) \<and>
   read_visum_file read_csv [''net.att'' \<mapsto> two_blocks] ''net.att'' (One ''A'')
     = (case decode_block read_csv ''A'' (''$A:X'' @ [NL] @ ''a'' @ [NL]) of
          Inl e \<Rightarrow> Inl e
        | Inr table_for_a \<Rightarrow> Inr (One table_for_a)) \<and>
   read_visum_file read_csv [''net.att'' \<mapsto> two_blocks] ''net.att'' (Many [''A'', ''B''])
     = (case decode_block read_csv ''A'' (''$A:X'' @ [NL] @ ''a'' @ [NL]) of
          Inl e \<Rightarrow> Inl e
        | Inr table_for_a \<Rightarrow> Inr (Many [table_for_a, empty_df]))"
  by (intro conjI reads_block_b reads_block_a reads_block_a_only)

theorem request_order_loses_block_witness:
  "read_visum_file example_read_csv [''net.att'' \<mapsto> two_blocks] ''net.att'' (Many [''B'', ''A''])
     = Inr (Many [\<lparr>columns = [''Y''], index = [0], rows = [[Str ''b'']]\<rparr>, empty_df]) \<and>
   read_visum_file example_read_csv [''net.att'' \<mapsto> two_blocks] ''net.att'' (One ''A'')
     = Inr (One \<lparr>columns = [''X''], index = [0], rows = [[Str ''a'']]\<rparr>) \<and>
   read_visum_file example_read_csv [''net.att'' \<mapsto> two_blocks] ''net.att'' (Many [''A'', ''B''])
     = Inr (Many [\<lparr>columns = [''X''], index = [0], rows = [[Str ''a'']]\<rparr>, empty_df])"
proof -
  have b: "decode_block example_read_csv ''B'' (''$B:Y'' @ [NL] @ ''b'' @ [NL])
      = Inr \<lparr>columns = [''Y''], index = [0], rows = [[Str ''b'']]\<rparr>"
    by code_simp
  have a: "decode_block example_read_csv ''A'' (''$A:X'' @ [NL] @ ''a'' @ [NL])
      = Inr \<lparr>columns = [''X''], index = [0], rows = [[Str ''a'']]\<rparr>"
    by code_simp
  from request_order_loses_block [of example_read_csv] show ?thesis
    by (simp only: a b sum.case)
qed

text \<open>
  The line that the terminator test reads starts at the \<open>*\<close> that was found, so the
  index of the \<open>*\<close> in it is always 0.
\<close>

lemma star_index_is_zero:
  assumes "mm_find bs cursor (CHR ''*'') = Some start_sign_index"
  shows "index_of (CHR ''*'') (fst (mm_readline bs start_sign_index)) = Some 0"
proof -
  from assms obtain i where i: "index_of (CHR ''*'') (drop cursor bs) = Some i"
    "start_sign_index = cursor + i"
    by (auto simp: mm_find_def)
  from index_of_Some [OF i(1)] have "start_sign_index < length bs" "bs ! start_sign_index = CHR ''*''"
    using i(2) by auto
  then obtain rest where "drop start_sign_index bs = CHR ''*'' # rest"
    by (metis Cons_nth_drop_Suc)
  then show ?thesis
    by (simp add: mm_readline_def line_at_def Let_def split: option.splits)
qed

lemma reads_up_to_star:
  "read_visum_file read_csv [''net.att'' \<mapsto> star_in_value] ''net.att'' (One ''A'')
     = (case decode_block read_csv ''A'' (''$A:X'' @ [NL] @ ''ab'') of
          Inl e \<Rightarrow> Inl e
        | Inr table_for_a \<Rightarrow> Inr (One table_for_a))"
  by (rule by_answer [where read_csv = read_csv and buffer = "''$A:X'' @ [NL] @ ''ab''"];
      code_simp)

text \<open>
  C3. Terminator disambiguation. The block has the body lines \<open>ab*cd\<close> and \<open>z\<close>. The
  \<open>*\<close> is at column 2 of its line: by the rule of columns 0 and 1 it is no
  terminator and the block has two rows. The reader ends the block at that \<open>*\<close>, at
  offset 7 of the file, and hands the decoding service the header line and \<open>ab\<close>,
  because the line it tests is read from the \<open>*\<close> itself, where the \<open>*\<close> is always at
  index 0. This holds for every decoding service.
\<close>

theorem star_inside_line_ends_block:
  "read_visum_file read_csv [''net.att'' \<mapsto> star_in_value] ''net.att'' (One ''A'')
     = (case decode_block read_csv ''A'' (''$A:X'' @ [NL] @ ''ab'') of
          Inl e \<Rightarrow> Inl e
        | Inr table_for_a \<Rightarrow> Inr (One table_for_a)) \<and>
   find_block_end star_in_value 5 = Some 7"
  by (rule conjI [OF reads_up_to_star]) code_simp

theorem star_inside_line_ends_block_witness:
  "read_visum_file example_read_csv [''net.att'' \<mapsto> star_in_value] ''net.att'' (One ''A'')
     = Inr (One \<lparr>columns = [''X''], index = [0], rows = [[Str ''ab'']]\<rparr>)"
proof -
  have a: "decode_block example_read_csv ''A'' (''$A:X'' @ [NL] @ ''ab'')
      = Inr \<lparr>columns = [''X''], index = [0], rows = [[Str ''ab'']]\<rparr>"
    by code_simp
  from star_inside_line_ends_block [of example_read_csv, THEN conjunct1] show ?thesis
    by (simp only: a sum.case)
qed

lemma reads_mixed_case:
  "read_visum_file read_csv [''net.att'' \<mapsto> mixed_case_header] ''net.att'' (One ''Link'')
     = (case decode_block read_csv ''Link'' mixed_case_header of
          Inl e \<Rightarrow> Inl e
        | Inr table_for_link \<Rightarrow> Inr (One table_for_link))"
  by (rule by_answer [where read_csv = read_csv and buffer = mixed_case_header]; code_simp)

text \<open>
  C4. Column-name normalization. The header line spells the table name \<open>Link\<close>. The
  line is found with the name as it was requested, so the request has to be \<open>Link\<close>;
  the request \<open>LINK\<close> finds nothing. The column names are then split at \<open>$LINK:\<close>, the
  requested name in upper case, compared as it is: the header \<open>$Link:NO\<close> does not hold
  it and keeps its prefix, where \<open>$LINK:NO\<close> would become \<open>NO\<close>. The writer puts the
  name into the header line as it was given, so a block written under \<open>Link\<close> comes
  back with the prefix on its first column.
\<close>

theorem mixed_case_prefix_kept:
  "read_visum_file read_csv [''net.att'' \<mapsto> mixed_case_header] ''net.att'' (One ''Link'')
     = (case decode_block read_csv ''Link'' mixed_case_header of
          Inl e \<Rightarrow> Inl e
        | Inr table_for_link \<Rightarrow> Inr (One table_for_link)) \<and>
   strip_prefix ''Link'' ''$Link:NO'' = ''$Link:NO'' \<and>
   strip_prefix ''Link'' ''$LINK:NO'' = ''NO'' \<and>
   read_visum_file read_csv [''net.att'' \<mapsto> mixed_case_header] ''net.att'' (One ''LINK'')
     = Inr (One empty_df)"
proof (intro conjI)
  show "read_visum_file read_csv [''net.att'' \<mapsto> mixed_case_header] ''net.att'' (One ''Link'')
     = (case decode_block read_csv ''Link'' mixed_case_header of
          Inl e \<Rightarrow> Inl e
        | Inr table_for_link \<Rightarrow> Inr (One table_for_link))"
    by (rule reads_mixed_case)
  show "strip_prefix ''Link'' ''$Link:NO'' = ''$Link:NO''"
    by code_simp
  show "strip_prefix ''Link'' ''$LINK:NO'' = ''NO''"
    by code_simp
  show "read_visum_file read_csv [''net.att'' \<mapsto> mixed_case_header] ''net.att'' (One ''LINK'')
     = Inr (One empty_df)"
    by code_simp
qed

theorem mixed_case_prefix_kept_witness:
  "read_visum_file example_read_csv [''net.att'' \<mapsto> mixed_case_header] ''net.att'' (One ''Link'')
     = Inr (One \<lparr>columns = [''$Link:NO'', ''NAME''], index = [0],
                 rows = [[Str ''r1'', Str ''x'']]\<rparr>) \<and>
   read_visum_file example_read_csv
     [''out.net'' \<mapsto> snd (export_visum_file (heap_of [stops]) (Single 0 ''Link'') None ''Net''
                            Create \<lparr>day = 4, month = 11, year = 2026\<rparr>)]
     ''out.net'' (One ''Link'')
     = Inr (One \<lparr>columns = [''$Link:NO'', ''NAME''], index = [0, 1],
                 rows = [[Str ''r1'', Str ''Main St''], [Str ''r2'', Str ''x'']]\<rparr>)"
proof -
  have a: "decode_block example_read_csv ''Link'' mixed_case_header
      = Inr \<lparr>columns = [''$Link:NO'', ''NAME''], index = [0], rows = [[Str ''r1'', Str ''x'']]\<rparr>"
    by code_simp
  from mixed_case_prefix_kept [of example_read_csv, THEN conjunct1]
  have 1: "read_visum_file example_read_csv [''net.att'' \<mapsto> mixed_case_header] ''net.att''
        (One ''Link'')
      = Inr (One \<lparr>columns = [''$Link:NO'', ''NAME''], index = [0],
                  rows = [[Str ''r1'', Str ''x'']]\<rparr>)"
    by (simp only: a sum.case)
  have 2: "read_visum_file example_read_csv
     [''out.net'' \<mapsto> snd (export_visum_file (heap_of [stops]) (Single 0 ''Link'') None ''Net''
                            Create \<lparr>day = 4, month = 11, year = 2026\<rparr>)]
     ''out.net'' (One ''Link'')
     = Inr (One \<lparr>columns = [''$Link:NO'', ''NAME''], index = [0, 1],
                 rows = [[Str ''r1'', Str ''Main St''], [Str ''r2'', Str ''x'']]\<rparr>)"
    by code_simp
  from 1 2 show ?thesis ..
qed

text \<open>
  The names are compared with the \<open>repr\<close> of the line, in which a tab is the two
  characters backslash and \<open>t\<close>: a requested name with a backslash can be found in a
  file that does not hold it.
\<close>

lemma escaped_name_found:
  "\<not> contains (''$A'' @ [CHR 0x5C] @ ''tB:'') tab_in_name \<and>
   read_visum_file read_csv [''net.att'' \<mapsto> tab_in_name] ''net.att''
       (One (''A'' @ [CHR 0x5C] @ ''tB''))
     = (case decode_block read_csv (''A'' @ [CHR 0x5C] @ ''tB'') tab_in_name of
          Inl e \<Rightarrow> Inl e
        | Inr table_found \<Rightarrow> Inr (One table_found))"
proof
  show "\<not> contains (''$A'' @ [CHR 0x5C] @ ''tB:'') tab_in_name"
    by code_simp
  show "read_visum_file read_csv [''net.att'' \<mapsto> tab_in_name] ''net.att''
       (One (''A'' @ [CHR 0x5C] @ ''tB''))
     = (case decode_block read_csv (''A'' @ [CHR 0x5C] @ ''tB'') tab_in_name of
          Inl e \<Rightarrow> Inl e
        | Inr table_found \<Rightarrow> Inr (One table_found))"
    by (rule by_answer [where read_csv = read_csv and buffer = tab_in_name]; code_simp)
qed




subsection \<open>Round trip\<close>

subsection \<open>Searching and reading in a file given in pieces\<close>







subsection \<open>One step of the reader for a single name\<close>



subsection \<open>Names and labels\<close>

lemma upper_join: "upper (join '';'' fs) = join '';'' (map upper fs)"
  by (induction "'';''" fs rule: join.induct) (simp_all add: upper_def upper_char_def)
















subsection \<open>The date\<close>






subsection \<open>A table that the Sanitizer leaves as it is\<close>




subsection \<open>The text of a block\<close>







subsection \<open>Reading the file that was written\<close>






subsection \<open>Encoding detection\<close>

text \<open>
  C9. Given a path, the Encoding Detector looks at the first three bytes only: it
  selects \<open>utf-8-sig\<close> exactly when the content starts with the UTF-8 byte-order
  mark and the legacy single-byte encoding \<open>ansi\<close> otherwise, two contents with the
  same first three bytes get the same answer, and a file that cannot be opened gives
  the open's error to the caller.
\<close>

theorem get_encoding_detects_bom:
  "(fs p = None \<longrightarrow> get_encoding fs p = Inl FileNotFoundError) \<and>
   (\<forall>bs. fs p = Some bs \<longrightarrow>
      (get_encoding fs p = Inr ''utf-8-sig'' \<longleftrightarrow> (\<exists>rest. bs = BOM_UTF8 @ rest)) \<and>
      (get_encoding fs p = Inr ''ansi'' \<longleftrightarrow> \<not> (\<exists>rest. bs = BOM_UTF8 @ rest)) \<and>
      (\<forall>fs' p' bs'. fs' p' = Some bs' \<and> take 3 bs' = take 3 bs \<longrightarrow>
         get_encoding fs' p' = get_encoding fs p))"
proof -
  have pre: "(take 3 bs = BOM_UTF8) = (\<exists>rest. bs = BOM_UTF8 @ rest)" for bs
  proof
    assume "take 3 bs = BOM_UTF8"
    then have "bs = BOM_UTF8 @ drop 3 bs"
      by (metis append_take_drop_id)
    then show "\<exists>rest. bs = BOM_UTF8 @ rest" ..
  next
    assume "\<exists>rest. bs = BOM_UTF8 @ rest"
    then show "take 3 bs = BOM_UTF8"
      by (auto simp: BOM_UTF8_def)
  qed
  have enc: "get_encoding fs p = Inr (if take 3 bs = BOM_UTF8 then ''utf-8-sig'' else ''ansi'')"
    if "fs p = Some bs" for fs p bs
    using that by (simp add: get_encoding_def open_rb_def stream_read_def)
  have none: "fs p = None \<longrightarrow> get_encoding fs p = Inl FileNotFoundError"
    by (simp add: get_encoding_def open_rb_def)
  have some: "(get_encoding fs p = Inr ''utf-8-sig'' \<longleftrightarrow> (\<exists>rest. bs = BOM_UTF8 @ rest)) \<and>
      (get_encoding fs p = Inr ''ansi'' \<longleftrightarrow> \<not> (\<exists>rest. bs = BOM_UTF8 @ rest)) \<and>
      (\<forall>fs' p' bs'. fs' p' = Some bs' \<and> take 3 bs' = take 3 bs \<longrightarrow>
         get_encoding fs' p' = get_encoding fs p)" if h: "fs p = Some bs" for bs
  proof (intro conjI allI impI)
    show "get_encoding fs p = Inr ''utf-8-sig'' \<longleftrightarrow> (\<exists>rest. bs = BOM_UTF8 @ rest)"
      using enc [of fs p bs] h by (simp add: pre)
    show "get_encoding fs p = Inr ''ansi'' \<longleftrightarrow> \<not> (\<exists>rest. bs = BOM_UTF8 @ rest)"
      using enc [of fs p bs] h by (simp add: pre)
    fix fs' :: filesystem and p' bs'
    assume a: "fs' p' = Some bs' \<and> take 3 bs' = take 3 bs"
    then show "get_encoding fs' p' = get_encoding fs p"
      using enc [of fs' p' bs'] enc [of fs p bs] h by simp
  qed
  from none some show ?thesis by blast
qed

theorem get_encoding_detects_bom_witness:
  "get_encoding [''net.att'' \<mapsto> BOM_UTF8 @ ''$VISION''] ''net.att'' = Inr ''utf-8-sig'' \<and>
   get_encoding Map.empty ''net.att'' = Inl FileNotFoundError"
proof -
  have a: "[''net.att'' \<mapsto> BOM_UTF8 @ ''$VISION''] ''net.att'' = Some (BOM_UTF8 @ ''$VISION'')"
    by simp
  have b: "(Map.empty :: filesystem) ''net.att'' = None"
    by simp
  from get_encoding_detects_bom [of "[''net.att'' \<mapsto> BOM_UTF8 @ ''$VISION'']" "''net.att''"] a
  have "get_encoding [''net.att'' \<mapsto> BOM_UTF8 @ ''$VISION''] ''net.att'' = Inr ''utf-8-sig''"
    by blast
  moreover from get_encoding_detects_bom [of Map.empty "''net.att''"] b
  have "get_encoding Map.empty ''net.att'' = Inl FileNotFoundError"
    by blast
  ultimately show ?thesis ..
qed

end
